theory Spec2Isabelle
  imports Main "HOL-Library.List_Lexorder"
begin

section \<open>Arrays, errors and the elementary mod-2 operations\<close>

text \<open>
  The module \<^verbatim>\<open>homology_mod2.py\<close> works on two-dimensional numpy arrays of integers.
  A two-dimensional array is a shape together with its entries in row-major order; the
  shape is kept explicitly because an array may have zero rows or zero columns and still
  remember the other dimension (the slices of \<^verbatim>\<open>homology_basis\<close> produce such arrays).
  Indices are the non-negative positions that the module itself computes; an index outside
  the array raises \<^verbatim>\<open>IndexError\<close>, and numpy raises \<^verbatim>\<open>ValueError\<close> on shapes that do not fit.
\<close>

datatype error = IndexError | ValueError | KeyError | HyperNetXError

record matrix =
  nrows :: nat
  ncols :: nat
  rows :: "int list list"

definition wf_mat :: "matrix \<Rightarrow> bool" where
  "wf_mat M = (length (rows M) = nrows M \<and> list_all (\<lambda>r. length r = ncols M) (rows M))"

definition binary :: "matrix \<Rightarrow> bool" where
  "binary M = list_all (list_all (\<lambda>x. x = 0 \<or> x = 1)) (rows M)"

definition at :: "matrix \<Rightarrow> nat \<Rightarrow> nat \<Rightarrow> int" where
  "at M i j = rows M ! i ! j"

definition mk_mat :: "nat \<Rightarrow> nat \<Rightarrow> (nat \<Rightarrow> nat \<Rightarrow> int) \<Rightarrow> matrix" where
  "mk_mat m n f = \<lparr>nrows = m, ncols = n, rows = map (\<lambda>i. map (\<lambda>j. f i j) [0..<n]) [0..<m]\<rparr>"

definition ebind :: "'e + 'a \<Rightarrow> ('a \<Rightarrow> 'e + 'b) \<Rightarrow> 'e + 'b" where
  "ebind m f = (case m of Inl e \<Rightarrow> Inl e | Inr x \<Rightarrow> f x)"

text \<open>\<^verbatim>\<open>np.mod(x, mod)\<close> on integers: the result has the sign of the divisor; numpy gives 0
  for a zero divisor.\<close>

definition np_mod :: "int \<Rightarrow> int \<Rightarrow> int" where
  "np_mod x md = (if md = 0 then 0 else x mod md)"

definition np_mod_vec :: "int list \<Rightarrow> int \<Rightarrow> int list" where
  "np_mod_vec v md = map (\<lambda>x. np_mod x md) v"

definition np_mod_mat :: "matrix \<Rightarrow> int \<Rightarrow> matrix" where
  "np_mod_mat M md = M\<lparr>rows := map (\<lambda>r. np_mod_vec r md) (rows M)\<rparr>"

text \<open>\<^verbatim>\<open>M.transpose()\<close>\<close>

definition mtranspose :: "matrix \<Rightarrow> matrix" where
  "mtranspose M = mk_mat (ncols M) (nrows M) (\<lambda>j i. at M i j)"

text \<open>\<^verbatim>\<open>_rswap(i,j,M)\<close>: \<^verbatim>\<open>N = deepcopy(M); N[i] = M[j]; N[j] = M[i]\<close>\<close>

definition rswap :: "nat \<Rightarrow> nat \<Rightarrow> matrix \<Rightarrow> error + matrix" where
  "rswap i j M =
     (if i < nrows M \<and> j < nrows M
      then Inr (M\<lparr>rows := (rows M)[i := rows M ! j, j := rows M ! i]\<rparr>)
      else Inl IndexError)"

text \<open>\<^verbatim>\<open>_cswap(i,j,M)\<close>: \<^verbatim>\<open>N = _rswap(i,j,M.transpose()); return N.transpose()\<close>\<close>

definition cswap :: "nat \<Rightarrow> nat \<Rightarrow> matrix \<Rightarrow> error + matrix" where
  "cswap i j M = ebind (rswap i j (mtranspose M)) (\<lambda>N. Inr (mtranspose N))"

fun swap_rows :: "nat \<Rightarrow> nat \<Rightarrow> matrix list \<Rightarrow> error + matrix list" where
  "swap_rows i j [] = Inr []"
| "swap_rows i j (M # Ms) =
     ebind (rswap i j M) (\<lambda>N. ebind (swap_rows i j Ms) (\<lambda>out. Inr (N # out)))"

fun swap_columns :: "nat \<Rightarrow> nat \<Rightarrow> matrix list \<Rightarrow> error + matrix list" where
  "swap_columns i j [] = Inr []"
| "swap_columns i j (M # Ms) =
     ebind (cswap i j M) (\<lambda>N. ebind (swap_columns i j Ms) (\<lambda>out. Inr (N # out)))"

text \<open>\<^verbatim>\<open>add_to_row(M,i,j,ri=1,rj=1,mod=2)\<close>:
  \<^verbatim>\<open>N = deepcopy(M); N[i] = np.mod(ri*N[i] + rj*N[j],[mod])\<close>\<close>

definition add_to_row :: "matrix \<Rightarrow> nat \<Rightarrow> nat \<Rightarrow> int \<Rightarrow> int \<Rightarrow> int \<Rightarrow> error + matrix" where
  "add_to_row M i j ri rj md =
     (if i < nrows M \<and> j < nrows M
      then Inr (M\<lparr>rows := (rows M)[i :=
                 np_mod_vec (map2 (\<lambda>a b. ri * a + rj * b) (rows M ! i) (rows M ! j)) md]\<rparr>)
      else Inl IndexError)"

text \<open>\<^verbatim>\<open>add_to_column(M,i,j,ci=1,cj=1,mod=2)\<close>:
  \<^verbatim>\<open>N = M.transpose(); return add_to_row(N,i,j,ci,cj,mod=mod).transpose()\<close>\<close>

definition add_to_column :: "matrix \<Rightarrow> nat \<Rightarrow> nat \<Rightarrow> int \<Rightarrow> int \<Rightarrow> int \<Rightarrow> error + matrix" where
  "add_to_column M i j ci cj md =
     ebind (add_to_row (mtranspose M) i j ci cj md) (\<lambda>N. Inr (mtranspose N))"

text \<open>\<^verbatim>\<open>np.matmul(M,N)\<close> on two-dimensional arrays, and \<^verbatim>\<open>modmult(M,N,mod=2)\<close>.\<close>

definition matmul :: "matrix \<Rightarrow> matrix \<Rightarrow> error + matrix" where
  "matmul M N =
     (if ncols M = nrows N
      then Inr (mk_mat (nrows M) (ncols N)
                  (\<lambda>i j. sum_list (map (\<lambda>k. at M i k * at N k j) [0..<ncols M])))
      else Inl ValueError)"

definition modmult :: "matrix \<Rightarrow> matrix \<Rightarrow> int \<Rightarrow> error + matrix" where
  "modmult M N md = ebind (matmul M N) (\<lambda>P. Inr (np_mod_mat P md))"

text \<open>\<^verbatim>\<open>matmulreduce(arr,reverse=False,mod=2)\<close>: \<^verbatim>\<open>items[0]\<close> of an empty range raises
  \<^verbatim>\<open>IndexError\<close>.\<close>

fun matmul_loop :: "matrix \<Rightarrow> matrix list \<Rightarrow> int \<Rightarrow> error + matrix" where
  "matmul_loop P [] md = Inr P"
| "matmul_loop P (N # Ns) md = ebind (modmult P N md) (\<lambda>P'. matmul_loop P' Ns md)"

definition matmulreduce :: "matrix list \<Rightarrow> bool \<Rightarrow> int \<Rightarrow> error + matrix" where
  "matmulreduce arr reverse md =
     (case (if reverse then rev arr else arr) of
        [] \<Rightarrow> Inl IndexError
      | P # rest \<Rightarrow> matmul_loop P rest md)"

text \<open>
  numpy's \<^verbatim>\<open>+\<close> broadcasts: two dimensions fit when they are equal or one of them is 1, and
  the dimension of size 1 is then repeated. \<^verbatim>\<open>matsumreduce\<close> is called on two-dimensional
  arrays and on one-dimensional ones (the rows handled by \<^verbatim>\<open>image_group\<close> and
  \<^verbatim>\<open>_coset_reps\<close>); its loop is the same for both, the array addition differs.
\<close>

definition bdim :: "nat \<Rightarrow> nat \<Rightarrow> nat option" where
  "bdim a b = (if a = b then Some a else if a = 1 then Some b else if b = 1 then Some a else None)"

definition np_add :: "matrix \<Rightarrow> matrix \<Rightarrow> error + matrix" where
  "np_add A B =
     (case (bdim (nrows A) (nrows B), bdim (ncols A) (ncols B)) of
        (Some m, Some n) \<Rightarrow>
          Inr (mk_mat m n (\<lambda>i j.
                 at A (if nrows A = 1 then 0 else i) (if ncols A = 1 then 0 else j)
               + at B (if nrows B = 1 then 0 else i) (if ncols B = 1 then 0 else j)))
      | _ \<Rightarrow> Inl ValueError)"

definition np_add_vec :: "int list \<Rightarrow> int list \<Rightarrow> error + int list" where
  "np_add_vec a b =
     (case bdim (length a) (length b) of
        Some n \<Rightarrow>
          Inr (map (\<lambda>i. a ! (if length a = 1 then 0 else i) + b ! (if length b = 1 then 0 else i))
                 [0..<n])
      | None \<Rightarrow> Inl ValueError)"

text \<open>\<^verbatim>\<open>matsumreduce(arr,mod=2)\<close>:
  \<^verbatim>\<open>S = arr[0]; for i in range(1,len(arr)): S = np.mod(S + arr[i],[mod]); return S\<close>\<close>

fun matsum_loop ::
  "('a \<Rightarrow> 'a \<Rightarrow> error + 'a) \<Rightarrow> ('a \<Rightarrow> int \<Rightarrow> 'a) \<Rightarrow> 'a \<Rightarrow> 'a list \<Rightarrow> int \<Rightarrow> error + 'a" where
  "matsum_loop add modf S [] md = Inr S"
| "matsum_loop add modf S (A # As) md =
     ebind (add S A) (\<lambda>T. matsum_loop add modf (modf T md) As md)"

definition matsumreduce_gen ::
  "('a \<Rightarrow> 'a \<Rightarrow> error + 'a) \<Rightarrow> ('a \<Rightarrow> int \<Rightarrow> 'a) \<Rightarrow> 'a list \<Rightarrow> int \<Rightarrow> error + 'a" where
  "matsumreduce_gen add modf arr md =
     (case arr of [] \<Rightarrow> Inl IndexError | S # rest \<Rightarrow> matsum_loop add modf S rest md)"

definition matsumreduce :: "matrix list \<Rightarrow> int \<Rightarrow> error + matrix" where
  "matsumreduce arr md = matsumreduce_gen np_add np_mod_mat arr md"

definition matsumreduce_vec :: "int list list \<Rightarrow> int \<Rightarrow> error + int list" where
  "matsumreduce_vec arr md = matsumreduce_gen np_add_vec np_mod_vec arr md"

text \<open>The convenience wrappers \<^verbatim>\<open>_sr\<close>, \<^verbatim>\<open>_sc\<close>, \<^verbatim>\<open>_ar\<close>, \<^verbatim>\<open>_ac\<close>; the caller unpacks the
  two results.\<close>

definition sr :: "nat \<Rightarrow> nat \<Rightarrow> matrix \<Rightarrow> matrix \<Rightarrow> error + matrix list" where
  "sr i j M L = swap_rows i j [M, L]"

definition sc :: "nat \<Rightarrow> nat \<Rightarrow> matrix \<Rightarrow> matrix \<Rightarrow> error + matrix list" where
  "sc i j M R = swap_columns i j [M, R]"

definition ar :: "nat \<Rightarrow> nat \<Rightarrow> matrix \<Rightarrow> matrix \<Rightarrow> int \<Rightarrow> error + matrix \<times> matrix" where
  "ar i j M L md =
     ebind (add_to_row M i j 1 1 md) (\<lambda>M'. ebind (add_to_row L i j 1 1 md) (\<lambda>L'. Inr (M', L')))"

definition ac :: "nat \<Rightarrow> nat \<Rightarrow> matrix \<Rightarrow> matrix \<Rightarrow> int \<Rightarrow> error + matrix \<times> matrix" where
  "ac i j M R md =
     ebind (add_to_column M i j 1 1 md) (\<lambda>M'. ebind (add_to_column R i j 1 1 md) (\<lambda>R'. Inr (M', R')))"

text \<open>\<^verbatim>\<open>_get_next_pivot(M,s1,s2=None)\<close>: \<^verbatim>\<open>if not s2: s2 = s1\<close> holds for \<^verbatim>\<open>None\<close> and for 0;
  the nested loops return at the first nonzero entry.\<close>

definition get_next_pivot :: "matrix \<Rightarrow> nat \<Rightarrow> nat option \<Rightarrow> (nat \<times> nat) option" where
  "get_next_pivot M s1 s2 =
     (let m = nrows M; n = ncols M;
          s2' = (case s2 of None \<Rightarrow> s1 | Some c \<Rightarrow> if c = 0 then s1 else c)
      in find (\<lambda>(r, c). at M r c \<noteq> 0)
           (concat (map (\<lambda>c. map (\<lambda>r. (r, c)) [s1..<m]) [s2'..<n])))"


section \<open>Smith normal form and reduced row echelon form\<close>

text \<open>\<^verbatim>\<open>np.eye(n,dtype=int)\<close>\<close>

definition eye :: "nat \<Rightarrow> matrix" where
  "eye n = mk_mat n n (\<lambda>i j. if i = j then 1 else 0)"

text \<open>
  The body shared by the two elimination loops over \<^verbatim>\<open>row_indices\<close>:
  \<^verbatim>\<open>S,L = _ar(rdx,s,S,L,mod=mod); Linv = add_to_column(Linv,s,rdx,mod=mod)\<close>
  (in \<^verbatim>\<open>reduced_row_echelon_form_mod2\<close> the variables are called \<^verbatim>\<open>idx\<close> and \<^verbatim>\<open>s1\<close>).
\<close>

fun row_loop ::
  "nat list \<Rightarrow> nat \<Rightarrow> matrix \<times> matrix \<times> matrix \<Rightarrow> int \<Rightarrow> error + matrix \<times> matrix \<times> matrix" where
  "row_loop [] s (S, L, Linv) md = Inr (S, L, Linv)"
| "row_loop (rdx # rest) s (S, L, Linv) md =
     ebind (ar rdx s S L md) (\<lambda>(S', L').
     ebind (add_to_column Linv s rdx 1 1 md) (\<lambda>Linv'.
     row_loop rest s (S', L', Linv') md))"

text \<open>\<^verbatim>\<open>for jdx,cdx in enumerate(column_indices): S,R = _ac(cdx,s,S,R)\<close>\<close>

fun col_loop :: "nat list \<Rightarrow> nat \<Rightarrow> matrix \<times> matrix \<Rightarrow> error + matrix \<times> matrix" where
  "col_loop [] s (S, R) = Inr (S, R)"
| "col_loop (cdx # rest) s (S, R) =
     ebind (ac cdx s S R 2) (\<lambda>(S', R'). col_loop rest s (S', R'))"

text \<open>Unpacking the list a swap returns into two names raises \<^verbatim>\<open>ValueError\<close> unless it has
  two elements; \<^verbatim>\<open>swap_columns(...)[0]\<close> raises \<^verbatim>\<open>IndexError\<close> on an empty list.\<close>

definition unpack2 :: "matrix list \<Rightarrow> error + matrix \<times> matrix" where
  "unpack2 out = (case out of [A, B] \<Rightarrow> Inr (A, B) | _ \<Rightarrow> Inl ValueError)"

definition first_of :: "matrix list \<Rightarrow> error + matrix" where
  "first_of out = (case out of [] \<Rightarrow> Inl IndexError | A # _ \<Rightarrow> Inr A)"

text \<open>One pass of the loop body of \<^verbatim>\<open>smith_normal_form_mod2\<close> after a pivot
  \<^verbatim>\<open>(rdx,cdx)\<close> was found; the state is \<^verbatim>\<open>(L,R,S,Linv)\<close>.\<close>

definition snf_step ::
  "nat \<Rightarrow> nat \<Rightarrow> nat \<Rightarrow> nat \<times> nat \<Rightarrow> matrix \<times> matrix \<times> matrix \<times> matrix
     \<Rightarrow> error + matrix \<times> matrix \<times> matrix \<times> matrix" where
  "snf_step dimL dimR s pivot st =
     (case (pivot, st) of ((rdx, cdx), (L, R, S, Linv)) \<Rightarrow>
     ebind (if rdx > s
            then ebind (ebind (sr s rdx S L) unpack2) (\<lambda>(S', L').
                 ebind (ebind (swap_columns s rdx [Linv]) first_of) (\<lambda>Linv'.
                 Inr (S', L', Linv')))
            else Inr (S, L, Linv)) (\<lambda>(S, L, Linv).
     ebind (if cdx > s
            then ebind (sc s cdx S R) unpack2
            else Inr (S, R)) (\<lambda>(S, R).
     ebind (row_loop (filter (\<lambda>idx. at S idx s = 1) [s + 1..<dimL]) s (S, L, Linv) 2)
       (\<lambda>(S, L, Linv).
     ebind (col_loop (filter (\<lambda>jdx. at S s jdx = 1) [s + 1..<dimR]) s (S, R))
       (\<lambda>(S, R). Inr (L, R, S, Linv))))))"

text \<open>\<^verbatim>\<open>for s in range(min(dimL,dimR))\<close>, leaving the loop when no pivot is found.\<close>

fun snf_loop ::
  "nat \<Rightarrow> nat \<Rightarrow> nat list \<Rightarrow> matrix \<times> matrix \<times> matrix \<times> matrix
     \<Rightarrow> error + matrix \<times> matrix \<times> matrix \<times> matrix" where
  "snf_loop dimL dimR [] st = Inr st"
| "snf_loop dimL dimR (s # rest) st =
     (case get_next_pivot (fst (snd (snd st))) s None of
        None \<Rightarrow> Inr st
      | Some pivot \<Rightarrow> ebind (snf_step dimL dimR s pivot st) (snf_loop dimL dimR rest))"

text \<open>\<^verbatim>\<open>smith_normal_form_mod2(M)\<close> returns \<^verbatim>\<open>L,R,S,Linv\<close>.\<close>

definition smith_normal_form_mod2 ::
  "matrix \<Rightarrow> error + matrix \<times> matrix \<times> matrix \<times> matrix" where
  "smith_normal_form_mod2 M =
     (let dimL = nrows M; dimR = ncols M
      in snf_loop dimL dimR [0..<min dimL dimR] (eye dimL, eye dimR, M, eye dimL))"

text \<open>
  The inner loop of \<^verbatim>\<open>reduced_row_echelon_form_mod2\<close>:
  \<^verbatim>\<open>for s1 in range(s2,dimL): pivot = _get_next_pivot(S,s1,s2); if pivot: ... break\<close>;
  it yields \<^verbatim>\<open>s1\<close>, \<^verbatim>\<open>rdx\<close> and \<^verbatim>\<open>cdx\<close> at the break, and nothing when the \<^verbatim>\<open>else\<close> branch
  of the loop (\<^verbatim>\<open>continue\<close>) is taken. The assignment \<^verbatim>\<open>s2 = cdx\<close> before the break is
  overwritten by the outer \<^verbatim>\<open>for s2 in range(dimR)\<close> and read nowhere.
\<close>

fun rref_search :: "matrix \<Rightarrow> nat \<Rightarrow> nat list \<Rightarrow> (nat \<times> nat \<times> nat) option" where
  "rref_search S s2 [] = None"
| "rref_search S s2 (s1 # rest) =
     (case get_next_pivot S s1 (Some s2) of
        Some (rdx, cdx) \<Rightarrow> Some (s1, rdx, cdx)
      | None \<Rightarrow> rref_search S s2 rest)"

text \<open>The rest of the outer loop body; the state is \<^verbatim>\<open>(L,S,Linv)\<close>.\<close>

definition rref_step ::
  "nat \<Rightarrow> nat \<times> nat \<times> nat \<Rightarrow> matrix \<times> matrix \<times> matrix \<Rightarrow> int
     \<Rightarrow> error + matrix \<times> matrix \<times> matrix" where
  "rref_step dimL found st md =
     (case (found, st) of ((s1, rdx, cdx), (L, S, Linv)) \<Rightarrow>
     ebind (if rdx > s1
            then ebind (ebind (sr s1 rdx S L) unpack2) (\<lambda>(S', L').
                 ebind (ebind (swap_columns rdx s1 [Linv]) first_of) (\<lambda>Linv'.
                 Inr (S', L', Linv')))
            else Inr (S, L, Linv)) (\<lambda>(S, L, Linv).
     ebind (row_loop (filter (\<lambda>idx. idx \<noteq> s1 \<and> at S idx cdx = 1) [0..<dimL]) s1 (S, L, Linv) md)
       (\<lambda>(S, L, Linv). Inr (L, S, Linv))))"

fun rref_loop ::
  "nat \<Rightarrow> nat list \<Rightarrow> matrix \<times> matrix \<times> matrix \<Rightarrow> int \<Rightarrow> error + matrix \<times> matrix \<times> matrix" where
  "rref_loop dimL [] st md = Inr st"
| "rref_loop dimL (s2 # rest) st md =
     (case rref_search (fst (snd st)) s2 [s2..<dimL] of
        None \<Rightarrow> rref_loop dimL rest st md
      | Some found \<Rightarrow> ebind (rref_step dimL found st md) (\<lambda>st'. rref_loop dimL rest st' md))"

text \<open>\<^verbatim>\<open>reduced_row_echelon_form_mod2(M)\<close> returns \<^verbatim>\<open>L,S,Linv\<close>; the parameter \<^verbatim>\<open>mod\<close> is
  overwritten by \<^verbatim>\<open>mod = 2\<close>.\<close>

definition reduced_row_echelon_form_mod2 :: "matrix \<Rightarrow> error + matrix \<times> matrix \<times> matrix" where
  "reduced_row_echelon_form_mod2 M =
     (let dimL = nrows M; dimR = ncols M
      in rref_loop dimL [0..<dimR] (eye dimL, M, eye dimL) 2)"


section \<open>Image group, cosets and the homology basis\<close>

text \<open>\<^verbatim>\<open>_coeff(n)\<close>: \<^verbatim>\<open>arr = [[0],[1]]\<close>, then \<^verbatim>\<open>addabit\<close> once for every \<^verbatim>\<open>idx\<close> in
  \<^verbatim>\<open>range(1,n)\<close>.\<close>

definition addabit :: "int list list \<Rightarrow> int list list" where
  "addabit arr = concat (map (\<lambda>a. [a @ [0], a @ [1]]) arr)"

definition coeff :: "nat \<Rightarrow> int list list" where
  "coeff n = foldl (\<lambda>arr idx. addabit arr) [[0], [1]] [1..<n]"

text \<open>\<^verbatim>\<open>np.sum\<close> of a one-dimensional and of a two-dimensional array.\<close>

definition np_sum_vec :: "int list \<Rightarrow> int" where
  "np_sum_vec v = sum_list v"

definition np_sum :: "matrix \<Rightarrow> int" where
  "np_sum M = sum_list (map sum_list (rows M))"

text \<open>Running a fallible function over a list, stopping at the first error.\<close>

fun emap :: "('a \<Rightarrow> error + 'b) \<Rightarrow> 'a list \<Rightarrow> error + 'b list" where
  "emap f [] = Inr []"
| "emap f (x # xs) = ebind (f x) (\<lambda>y. ebind (emap f xs) (\<lambda>ys. Inr (y # ys)))"

text \<open>
  \<^verbatim>\<open>image_group(im2)\<close>: \<^verbatim>\<open>None\<close> when the entries of \<^verbatim>\<open>im2\<close> sum to 0, otherwise the list of
  the sums \<^verbatim>\<open>matsumreduce([a*image_basis[idx] for idx,a in enumerate(alpha)])\<close> over all
  \<^verbatim>\<open>alpha\<close> of \<^verbatim>\<open>_coeff(len(image_basis))\<close>, sorted (stably) by \<^verbatim>\<open>np.sum\<close>.
\<close>

definition scaled_rows :: "int list list \<Rightarrow> int list \<Rightarrow> error + int list list" where
  "scaled_rows image_basis alpha =
     emap (\<lambda>(idx, a). if idx < length image_basis
                       then Inr (map (\<lambda>x. a * x) (image_basis ! idx))
                       else Inl IndexError)
          (enumerate 0 alpha)"

definition image_group :: "matrix \<Rightarrow> error + int list list option" where
  "image_group im2 =
     (if np_sum im2 = 0 then Inr None
      else let image_basis = rows (mtranspose im2)
           in ebind (emap (\<lambda>alpha. ebind (scaled_rows image_basis alpha)
                                      (\<lambda>arr. matsumreduce_vec arr 2))
                       (coeff (length image_basis)))
                (\<lambda>grp. Inr (Some (sort_key np_sum_vec grp))))"

text \<open>\<^verbatim>\<open>_coset_reps(bs,image_group,shortest=True)\<close>; \<^verbatim>\<open>coset[0]\<close> raises \<^verbatim>\<open>IndexError\<close> on an
  empty coset.\<close>

definition coset_reps :: "int list \<Rightarrow> int list list \<Rightarrow> bool \<Rightarrow> error + int list list" where
  "coset_reps bs grp shortest =
     ebind (emap (\<lambda>img. matsumreduce_vec [img, bs] 2) grp) (\<lambda>coset0.
       let coset = sort_key np_sum_vec coset0
       in if shortest
          then (case coset of
                  [] \<Rightarrow> Inl IndexError
                | c # _ \<Rightarrow> Inr (filter (\<lambda>g. np_sum_vec g = np_sum_vec c) coset))
          else Inr coset)"

text \<open>\<^verbatim>\<open>interpret(Ck,arr)\<close> (the name is reserved in Isabelle, hence \<open>interpret_cells\<close>).\<close>

definition interpret_cells :: "'a list \<Rightarrow> int list list \<Rightarrow> error + 'a list list" where
  "interpret_cells Ck arr =
     emap (\<lambda>vec. if length Ck \<noteq> length vec then Inl HyperNetXError
                  else Inr (map (\<lambda>idx. Ck ! idx) (filter (\<lambda>idx. vec ! idx = 1) [0..<length vec])))
          arr"

text \<open>Slices with the bounds that \<^verbatim>\<open>np.sum\<close> delivers: a start or stop \<^verbatim>\<open>a\<close> is clipped to the
  dimension, and a negative one counts from the end.\<close>

definition clip :: "int \<Rightarrow> nat \<Rightarrow> nat" where
  "clip a n = (if a < 0 then nat (max 0 (int n + a)) else min (nat a) n)"

text \<open>\<^verbatim>\<open>M[:,a:]\<close>, \<^verbatim>\<open>M[:,:a]\<close> and \<^verbatim>\<open>M[a:,:]\<close>\<close>

definition cols_from :: "matrix \<Rightarrow> int \<Rightarrow> matrix" where
  "cols_from M a = (let c = clip a (ncols M)
                    in \<lparr>nrows = nrows M, ncols = ncols M - c, rows = map (drop c) (rows M)\<rparr>)"

definition cols_upto :: "matrix \<Rightarrow> int \<Rightarrow> matrix" where
  "cols_upto M a = (let c = clip a (ncols M)
                    in \<lparr>nrows = nrows M, ncols = c, rows = map (take c) (rows M)\<rparr>)"

definition rows_from :: "matrix \<Rightarrow> int \<Rightarrow> matrix" where
  "rows_from M a = (let c = clip a (nrows M)
                    in \<lparr>nrows = nrows M - c, ncols = ncols M, rows = drop c (rows M)\<rparr>)"

text \<open>The shapes of the value \<^verbatim>\<open>homology_basis\<close> returns: the generators as 0-1 rows, the
  generators as lists of cells, or (with \<^verbatim>\<open>shortest\<close>) a dictionary from the index of a
  generator to its shortest coset representatives, in either form.\<close>

datatype 'a hom_result =
    Generators "int list list"
  | Chains "'a list list"
  | Cosets "(nat \<times> int list list) list"
  | CosetChains "(nat \<times> 'a list list) list"

text \<open>Truth of \<^verbatim>\<open>if C:\<close> for an optional list.\<close>

definition truthy :: "'a list option \<Rightarrow> bool" where
  "truthy C = (case C of None \<Rightarrow> False | Some [] \<Rightarrow> False | Some _ \<Rightarrow> True)"

text \<open>\<^verbatim>\<open>homology_basis(bd,k,C=None,shortest=False)\<close>; \<^verbatim>\<open>bd\<close> is a dictionary keyed on the
  dimension.\<close>

definition lookup :: "(nat \<rightharpoonup> matrix) \<Rightarrow> nat \<Rightarrow> error + matrix" where
  "lookup bd k = (case bd k of None \<Rightarrow> Inl KeyError | Some M \<Rightarrow> Inr M)"

definition hom_proj :: "(nat \<rightharpoonup> matrix) \<Rightarrow> nat \<Rightarrow> error + int list list \<times> matrix" where
  "hom_proj bd k =
     ebind (lookup bd k) (\<lambda>bdk.
     ebind (smith_normal_form_mod2 bdk) (\<lambda>(L1, R1, S1, L1inv).
     ebind (lookup bd (k + 1)) (\<lambda>bdk1.
     ebind (smith_normal_form_mod2 bdk1) (\<lambda>(L2, R2, S2, L2inv).
       let rank1 = np_sum S1; rank2 = np_sum S2;
           ker1 = cols_from R1 rank1;
           im2 = cols_upto L2inv rank2;
           cokernel2 = cols_from L2inv rank2;
           cokproj2 = rows_from L2 rank2
       in ebind (matmulreduce [cokernel2, cokproj2, ker1] False 2) (\<lambda>P.
          ebind (reduced_row_echelon_form_mod2 (mtranspose P)) (\<lambda>(L3, proj, L3inv).
            Inr (filter (\<lambda>row. np_sum_vec row > 0) (rows proj), im2)))))))"

definition homology_basis ::
  "(nat \<rightharpoonup> matrix) \<Rightarrow> nat \<Rightarrow> 'a list option \<Rightarrow> bool \<Rightarrow> error + 'a hom_result" where
  "homology_basis bd k C shortest =
     ebind (hom_proj bd k) (\<lambda>(proj, im2).
       let plain = (if truthy C
                    then ebind (interpret_cells (the C) proj) (\<lambda>out. Inr (Chains out))
                    else Inr (Generators proj))
       in if shortest
          then ebind (image_group im2) (\<lambda>img_group.
                 if truthy img_group
                 then (if truthy C
                       then ebind (emap (\<lambda>(idx, bs).
                                     ebind (coset_reps bs (the img_group) True) (\<lambda>reps.
                                     ebind (interpret_cells (the C) reps) (\<lambda>out. Inr (idx, out))))
                                   (enumerate 0 proj))
                              (\<lambda>coset. Inr (CosetChains coset))
                       else ebind (emap (\<lambda>(idx, bs).
                                     ebind (coset_reps bs (the img_group) True) (\<lambda>reps.
                                     Inr (idx, reps)))
                                   (enumerate 0 proj))
                              (\<lambda>coset. Inr (Cosets coset)))
                 else plain)
          else plain)"

section \<open>The simplicial complex of a hypergraph\<close>

text \<open>
  A hypergraph is given by its edges, each edge by the list of its node identifiers
  (\<^verbatim>\<open>e.uidset\<close>); \<^verbatim>\<open>len(e)\<close> is the number of distinct nodes of the edge. The cells are
  sorted tuples, compared lexicographically as Python compares tuples.
\<close>

type_synonym hypergraph = "nat list list"

text \<open>\<^verbatim>\<open>itertools.combinations(xs,r)\<close>\<close>

fun combinations :: "'a list \<Rightarrow> nat \<Rightarrow> 'a list list" where
  "combinations xs 0 = [[]]"
| "combinations [] (Suc r) = []"
| "combinations (x # xs) (Suc r) = map ((#) x) (combinations xs r) @ combinations xs (Suc r)"

definition edge_len :: "nat list \<Rightarrow> nat" where
  "edge_len e = length (remdups e)"

text \<open>\<^verbatim>\<open>kchainbasis(h,k)\<close>\<close>

definition kchainbasis :: "hypergraph \<Rightarrow> nat \<Rightarrow> nat list list" where
  "kchainbasis h k =
     sort (remdups (concat (map (\<lambda>e.
        if edge_len e = k + 1 then [sort (remdups e)]
        else if edge_len e > k + 1 then combinations (sort (remdups e)) (k + 1)
        else []) h)))"

text \<open>\<^verbatim>\<open>xs.index(x)\<close> raises \<^verbatim>\<open>ValueError\<close> when \<^verbatim>\<open>x\<close> is absent.\<close>

fun index_of :: "'a list \<Rightarrow> 'a \<Rightarrow> error + nat" where
  "index_of [] x = Inl ValueError"
| "index_of (y # ys) x = (if y = x then Inr 0 else ebind (index_of ys x) (\<lambda>n. Inr (Suc n)))"

text \<open>\<^verbatim>\<open>bk[row,col] = 1\<close>\<close>

definition set_entry :: "matrix \<Rightarrow> nat \<Rightarrow> nat \<Rightarrow> int \<Rightarrow> matrix" where
  "set_entry M r c v = M\<lparr>rows := (rows M)[r := (rows M ! r)[c := v]]\<rparr>"

text \<open>\<^verbatim>\<open>bkMatrix(km1basis,kbasis)\<close>: the two nested loops, over the cells and over the
  positions of a cell.\<close>

fun bk_faces ::
  "nat list list \<Rightarrow> nat list list \<Rightarrow> nat list \<Rightarrow> nat list \<Rightarrow> matrix \<Rightarrow> error + matrix" where
  "bk_faces km1basis kbasis cell [] bk = Inr bk"
| "bk_faces km1basis kbasis cell (idx # rest) bk =
     ebind (index_of km1basis (take idx cell @ drop (idx + 1) cell)) (\<lambda>row.
     ebind (index_of kbasis cell) (\<lambda>col.
     bk_faces km1basis kbasis cell rest (set_entry bk row col 1)))"

fun bk_cells :: "nat list list \<Rightarrow> nat list list \<Rightarrow> nat list list \<Rightarrow> matrix \<Rightarrow> error + matrix" where
  "bk_cells km1basis kbasis [] bk = Inr bk"
| "bk_cells km1basis kbasis (cell # rest) bk =
     ebind (bk_faces km1basis kbasis cell [0..<length cell] bk) (bk_cells km1basis kbasis rest)"

definition bkMatrix :: "nat list list \<Rightarrow> nat list list \<Rightarrow> error + matrix" where
  "bkMatrix km1basis kbasis =
     bk_cells km1basis kbasis kbasis (mk_mat (length km1basis) (length kbasis) (\<lambda>i j. 0))"

text \<open>
  \<^verbatim>\<open>hypergraph_homology_basis(h,k,shortest=False)\<close>: \<^verbatim>\<open>np.max\<close> of an empty list raises
  \<^verbatim>\<open>ValueError\<close>; an unsuitable \<^verbatim>\<open>k\<close> makes the function return the string
  \<^verbatim>\<open>'wrong dim'\<close>. The value returned is that string or the value of \<^verbatim>\<open>homology_basis\<close>.
\<close>

datatype 'a returned = Text string | Basis "'a hom_result"

definition hypergraph_homology_basis ::
  "hypergraph \<Rightarrow> int \<Rightarrow> bool \<Rightarrow> error + (nat list) returned" where
  "hypergraph_homology_basis h k shortest =
     (if h = [] then Inl ValueError
      else let max_edge_size = Max (set (map edge_len h))
           in if k + 1 > int max_edge_size \<or> k < 1 then Inr (Text ''wrong dim'')
              else let kn = nat k;
                       C = (\<lambda>i. kchainbasis h i)
                   in ebind (bkMatrix (C (kn - 1)) (C kn)) (\<lambda>bdk.
                      ebind (bkMatrix (C kn) (C (kn + 1))) (\<lambda>bdk1.
                      ebind (homology_basis [kn \<mapsto> bdk, kn + 1 \<mapsto> bdk1] kn (Some (C kn)) shortest)
                        (\<lambda>res. Inr (Basis res)))))"

section \<open>Inputs used in the examples\<close>

definition same_row_input :: matrix where
  "same_row_input = \<lparr>nrows = 1, ncols = 1, rows = [[1]]\<rparr>"

definition pivot_input :: matrix where
  "pivot_input = \<lparr>nrows = 2, ncols = 2, rows = [[0, 0], [1, 0]]\<rparr>"

definition sum_a1 :: matrix where "sum_a1 = \<lparr>nrows = 2, ncols = 2, rows = [[1, 0], [0, 1]]\<rparr>"

definition sum_a2 :: matrix where "sum_a2 = \<lparr>nrows = 2, ncols = 2, rows = [[1, 1], [0, 1]]\<rparr>"

definition sum_b :: matrix where "sum_b = \<lparr>nrows = 3, ncols = 2, rows = [[1, 1], [0, 1], [0, 0]]\<rparr>"

definition sum_row :: matrix where "sum_row = \<lparr>nrows = 1, ncols = 2, rows = [[1, 1]]\<rparr>"

text \<open>Addition of two 0-1 vectors mod 2, the Hamming weight, and 0-1 vectors.\<close>

definition add_mod2 :: "int list \<Rightarrow> int list \<Rightarrow> int list" where
  "add_mod2 a b = map2 (\<lambda>x y. (x + y) mod 2) a b"

definition hamming :: "int list \<Rightarrow> nat" where
  "hamming v = length (filter (\<lambda>x. x \<noteq> 0) v)"

definition bits :: "int list \<Rightarrow> bool" where
  "bits v = list_all (\<lambda>x. x = 0 \<or> x = 1) v"

definition coset_g :: "int list list" where
  "coset_g = [[0, 0, 0], [1, 1, 0], [0, 1, 1], [1, 0, 1]]"

text \<open>The mod-2 combination of the columns of a matrix with given coefficients, and
  linear independence of the columns over the field with two elements.\<close>

definition col_comb :: "matrix \<Rightarrow> int list \<Rightarrow> int list" where
  "col_comb im2 alpha =
     map (\<lambda>i. sum_list (map (\<lambda>j. alpha ! j * at im2 i j) [0..<ncols im2]) mod 2) [0..<nrows im2]"

definition indep_cols :: "matrix \<Rightarrow> bool" where
  "indep_cols im2 =
     (\<forall>alpha \<in> set (List.n_lists (ncols im2) [0, 1]).
        col_comb im2 alpha = replicate (nrows im2) 0 \<longrightarrow> alpha = replicate (ncols im2) 0)"

definition two_cols :: matrix where
  "two_cols = \<lparr>nrows = 2, ncols = 2, rows = [[1, 0], [1, 1]]\<rparr>"

definition no_cols :: matrix where
  "no_cols = \<lparr>nrows = 2, ncols = 0, rows = [[], []]\<rparr>"

section \<open>Basic facts about the arrays and the elementary operations\<close>


lemma ebind_Inr [simp]: "ebind (Inr x) f = f x"
  by (simp add: ebind_def)

lemma ebind_Inl [simp]: "ebind (Inl e) f = Inl e"
  by (simp add: ebind_def)

lemma ebind_eq_Inr: "ebind m f = Inr y \<longleftrightarrow> (\<exists>x. m = Inr x \<and> f x = Inr y)"
  by (cases m) auto

lemma np_mod_2 [simp]: "np_mod x 2 = x mod 2"
  by (simp add: np_mod_def)

lemma nrows_mk_mat [simp]: "nrows (mk_mat m n f) = m"
  and ncols_mk_mat [simp]: "ncols (mk_mat m n f) = n"
  by (simp_all add: mk_mat_def)

lemma wf_mk_mat [simp]: "wf_mat (mk_mat m n f)"
  by (simp add: wf_mat_def mk_mat_def list_all_iff)

lemma at_mk_mat [simp]: "i < m \<Longrightarrow> j < n \<Longrightarrow> at (mk_mat m n f) i j = f i j"
  by (simp add: at_def mk_mat_def)

lemma mk_mat_cong: "(\<And>i j. i < m \<Longrightarrow> j < n \<Longrightarrow> f i j = g i j) \<Longrightarrow> mk_mat m n f = mk_mat m n g"
  by (simp add: mk_mat_def)

lemma mk_mat_eq_iff: "mk_mat m n f = mk_mat m n g \<longleftrightarrow> (\<forall>i<m. \<forall>j<n. f i j = g i j)"
proof
  assume e: "mk_mat m n f = mk_mat m n g"
  show "\<forall>i<m. \<forall>j<n. f i j = g i j"
  proof (intro allI impI)
    fix i j assume ij: "i < m" "j < n"
    have "at (mk_mat m n f) i j = at (mk_mat m n g) i j" by (simp only: e)
    then show "f i j = g i j" using ij by (simp only: at_mk_mat)
  qed
qed (auto intro: mk_mat_cong)

lemma wf_rows_nth: "wf_mat M \<Longrightarrow> i < nrows M \<Longrightarrow> length (rows M ! i) = ncols M"
  by (simp add: wf_mat_def list_all_length)

lemma mk_mat_at: "wf_mat M \<Longrightarrow> mk_mat (nrows M) (ncols M) (at M) = M"
proof -
  assume w: "wf_mat M"
  have "map (\<lambda>i. map (\<lambda>j. rows M ! i ! j) [0..<ncols M]) [0..<nrows M] = rows M"
  proof (rule nth_equalityI)
    show "length (map (\<lambda>i. map (\<lambda>j. rows M ! i ! j) [0..<ncols M]) [0..<nrows M]) = length (rows M)"
      using w by (simp add: wf_mat_def)
  next
    fix i assume "i < length (map (\<lambda>i. map (\<lambda>j. rows M ! i ! j) [0..<ncols M]) [0..<nrows M])"
    then have i: "i < nrows M" by simp
    have "map (\<lambda>j. rows M ! i ! j) [0..<ncols M] = rows M ! i"
      using wf_rows_nth[OF w i] by (metis map_nth)
    then show "map (\<lambda>i. map (\<lambda>j. rows M ! i ! j) [0..<ncols M]) [0..<nrows M] ! i = rows M ! i"
      using i by simp
  qed
  then show ?thesis by (simp add: mk_mat_def at_def)
qed

lemma mat_eqI:
  assumes "wf_mat A" "wf_mat B" "nrows A = nrows B" "ncols A = ncols B"
    and "\<And>i j. i < nrows A \<Longrightarrow> j < ncols A \<Longrightarrow> at A i j = at B i j"
  shows "A = B"
proof -
  have "A = mk_mat (nrows A) (ncols A) (at A)"
    using assms(1) by (simp only: mk_mat_at)
  also have "\<dots> = mk_mat (nrows A) (ncols A) (at B)"
    using assms(5) by (rule mk_mat_cong)
  also have "\<dots> = mk_mat (nrows B) (ncols B) (at B)"
    by (simp only: assms(3,4))
  also have "\<dots> = B"
    using assms(2) by (simp only: mk_mat_at)
  finally show ?thesis .
qed

lemma binary_iff: "wf_mat M \<Longrightarrow> binary M \<longleftrightarrow> (\<forall>i<nrows M. \<forall>j<ncols M. at M i j = 0 \<or> at M i j = 1)"
  by (auto simp: binary_def wf_mat_def list_all_length at_def)

lemma binary_mk_mat: "binary (mk_mat m n f) \<longleftrightarrow> (\<forall>i<m. \<forall>j<n. f i j = 0 \<or> f i j = 1)"
  by (simp add: binary_iff)

lemma mtranspose_eq: "mtranspose M = mk_mat (ncols M) (nrows M) (\<lambda>j i. at M i j)"
  by (simp add: mtranspose_def)

lemma rswap_eq:
  assumes "wf_mat M" "i < nrows M" "j < nrows M"
  shows "rswap i j M = Inr (mk_mat (nrows M) (ncols M)
           (\<lambda>a b. at M (if a = j then i else if a = i then j else a) b))"
proof -
  let ?N = "M\<lparr>rows := (rows M)[i := rows M ! j, j := rows M ! i]\<rparr>"
  have len: "length (rows M) = nrows M" using assms(1) by (simp add: wf_mat_def)
  have "wf_mat ?N"
    using assms by (auto simp: wf_mat_def list_all_length nth_list_update)
  moreover have "\<And>a b. a < nrows M \<Longrightarrow> b < ncols M \<Longrightarrow>
      at ?N a b = at M (if a = j then i else if a = i then j else a) b"
    using assms len by (auto simp: at_def nth_list_update)
  ultimately have "?N = mk_mat (nrows M) (ncols M)
           (\<lambda>a b. at M (if a = j then i else if a = i then j else a) b)"
    by (intro mat_eqI) simp_all
  then show ?thesis using assms by (simp add: rswap_def)
qed

lemma add_to_row_eq:
  assumes "wf_mat M" "i < nrows M" "j < nrows M"
  shows "add_to_row M i j 1 1 2 = Inr (mk_mat (nrows M) (ncols M)
           (\<lambda>a b. if a = i then (at M i b + at M j b) mod 2 else at M a b))"
proof -
  let ?r = "np_mod_vec (map2 (\<lambda>a b. 1 * a + 1 * b) (rows M ! i) (rows M ! j)) 2"
  let ?N = "M\<lparr>rows := (rows M)[i := ?r]\<rparr>"
  have len: "length (rows M) = nrows M" using assms(1) by (simp add: wf_mat_def)
  have li: "length (rows M ! i) = ncols M" and lj: "length (rows M ! j) = ncols M"
    using assms by (simp_all add: wf_rows_nth)
  have lr: "length ?r = ncols M" using li lj by (simp add: np_mod_vec_def)
  have "wf_mat ?N"
    using assms lr by (auto simp: wf_mat_def list_all_length nth_list_update)
  moreover have "\<And>a b. a < nrows M \<Longrightarrow> b < ncols M \<Longrightarrow>
      at ?N a b = (if a = i then (at M i b + at M j b) mod 2 else at M a b)"
    using assms len li lj by (auto simp: at_def nth_list_update np_mod_vec_def)
  ultimately have "?N = mk_mat (nrows M) (ncols M)
           (\<lambda>a b. if a = i then (at M i b + at M j b) mod 2 else at M a b)"
    by (intro mat_eqI) simp_all
  then show ?thesis using assms by (simp add: add_to_row_def)
qed

lemma cswap_eq:
  assumes "i < ncols M" "j < ncols M"
  shows "cswap i j M = Inr (mk_mat (nrows M) (ncols M)
           (\<lambda>a b. at M a (if b = j then i else if b = i then j else b)))"
  using assms by (simp add: cswap_def mtranspose_eq rswap_eq mk_mat_eq_iff)

lemma add_to_column_eq:
  assumes "i < ncols M" "j < ncols M"
  shows "add_to_column M i j 1 1 2 = Inr (mk_mat (nrows M) (ncols M)
           (\<lambda>a b. if b = i then (at M a i + at M a j) mod 2 else at M a b))"
  using assms by (simp add: add_to_column_def mtranspose_eq add_to_row_eq mk_mat_eq_iff)

section \<open>Summing a list of arrays\<close>

lemma np_mod_mat_mk_mat: "np_mod_mat (mk_mat m n f) 2 = mk_mat m n (\<lambda>i j. f i j mod 2)"
  by (simp add: np_mod_mat_def mk_mat_def np_mod_vec_def)

lemma nrows_np_mod_mat [simp]: "nrows (np_mod_mat M md) = nrows M"
  and ncols_np_mod_mat [simp]: "ncols (np_mod_mat M md) = ncols M"
  by (simp_all add: np_mod_mat_def)

lemma bdim_same [simp]: "bdim a a = Some a"
  by (simp add: bdim_def)

lemma np_add_same_shape:
  assumes "nrows A = nrows B" "ncols A = ncols B"
  shows "np_add A B = Inr (mk_mat (nrows A) (ncols A) (\<lambda>i j. at A i j + at B i j))"
proof -
  have "mk_mat (nrows B) (ncols B) (\<lambda>i j.
                 at A (if nrows A = 1 then 0 else i) (if ncols A = 1 then 0 else j)
               + at B (if nrows B = 1 then 0 else i) (if ncols B = 1 then 0 else j))
      = mk_mat (nrows B) (ncols B) (\<lambda>i j. at A i j + at B i j)"
    using assms by (intro mk_mat_cong) auto
  then show ?thesis using assms by (simp add: np_add_def)
qed

lemma matsum_loop_same_shape:
  assumes "\<forall>A\<in>set As. nrows A = m \<and> ncols A = n"
  shows "matsum_loop np_add np_mod_mat (mk_mat m n f) As 2
         = Inr (if As = [] then mk_mat m n f
                else mk_mat m n (\<lambda>i j. (f i j + sum_list (map (\<lambda>A. at A i j) As)) mod 2))"
  using assms
proof (induction As arbitrary: f)
  case Nil
  then show ?case by simp
next
  case (Cons A As)
  have shA: "nrows A = m" "ncols A = n" using Cons.prems by simp_all
  have add: "np_add (mk_mat m n f) A = Inr (mk_mat m n (\<lambda>i j. f i j + at A i j))"
    using shA np_add_same_shape[of "mk_mat m n f" A]
    by (simp add: mk_mat_eq_iff)
  have rest: "\<forall>A\<in>set As. nrows A = m \<and> ncols A = n" using Cons.prems by simp
  note IH = Cons.IH[OF rest, of "\<lambda>i j. (f i j + at A i j) mod 2"]
  show ?case
  proof (cases "As = []")
    case True
    then show ?thesis using add by (simp add: np_mod_mat_mk_mat)
  next
    case False
    have "mk_mat m n (\<lambda>i j. ((f i j + at A i j) mod 2 + sum_list (map (\<lambda>A. at A i j) As)) mod 2)
        = mk_mat m n (\<lambda>i j. (f i j + (at A i j + sum_list (map (\<lambda>A. at A i j) As))) mod 2)"
      by (intro mk_mat_cong) (simp add: mod_add_left_eq add.assoc)
    then show ?thesis using add IH False by (simp add: np_mod_mat_mk_mat)
  qed
qed

lemma binary_at:
  "wf_mat M \<Longrightarrow> binary M \<Longrightarrow> i < nrows M \<Longrightarrow> j < ncols M \<Longrightarrow> at M i j = 0 \<or> at M i j = 1"
  by (simp add: binary_iff)

lemma binary_at_mod:
  assumes "wf_mat M" "binary M" "i < nrows M" "j < ncols M"
  shows "at M i j mod 2 = at M i j"
  using binary_at[OF assms] by auto

lemma matsumreduce_same_shape:
  assumes "arr \<noteq> []"
    and "\<forall>A\<in>set arr. wf_mat A \<and> binary A \<and> nrows A = m \<and> ncols A = n"
  shows "matsumreduce arr 2 = Inr (mk_mat m n (\<lambda>i j. sum_list (map (\<lambda>A. at A i j) arr) mod 2))"
proof -
  obtain S rest where arr: "arr = S # rest" using assms(1) by (cases arr) auto
  have S: "wf_mat S" "binary S" "nrows S = m" "ncols S = n" using assms(2) arr by simp_all
  have rest: "\<forall>A\<in>set rest. nrows A = m \<and> ncols A = n" using assms(2) arr by simp
  have Seq: "S = mk_mat m n (at S)" using S mk_mat_at[of S] by simp
  have "matsum_loop np_add np_mod_mat (mk_mat m n (at S)) rest 2
      = Inr (mk_mat m n (\<lambda>i j. sum_list (map (\<lambda>A. at A i j) arr) mod 2))"
  proof (cases "rest = []")
    case True
    have "mk_mat m n (at S) = mk_mat m n (\<lambda>i j. at S i j mod 2)"
      using S by (intro mk_mat_cong) (simp add: binary_at_mod)
    then show ?thesis using True arr by simp
  next
    case False
    then show ?thesis using matsum_loop_same_shape[OF rest, of "at S"] arr by simp
  qed
  then show ?thesis using arr Seq by (simp add: matsumreduce_def matsumreduce_gen_def)
qed

lemma matsum_loop_append:
  "matsum_loop add modf S (As @ Bs) md
     = ebind (matsum_loop add modf S As md) (\<lambda>T. matsum_loop add modf T Bs md)"
proof (induction As arbitrary: S)
  case Nil
  show ?case by simp
next
  case (Cons A As)
  show ?case by (cases "add S A") (simp_all add: Cons.IH)
qed

lemma np_add_misfit:
  "bdim (nrows A) (nrows B) = None \<or> bdim (ncols A) (ncols B) = None \<Longrightarrow> np_add A B = Inl ValueError"
  by (auto simp: np_add_def split: option.splits)

lemma matsumreduce_misfit:
  assumes "pre \<noteq> []" "\<forall>A\<in>set pre. nrows A = m \<and> ncols A = n"
    and "bdim m (nrows B) = None \<or> bdim n (ncols B) = None"
  shows "matsumreduce (pre @ B # post) md = Inl ValueError"
proof -
  obtain S rest where pre: "pre = S # rest" using assms(1) by (cases pre) auto
  have "\<exists>T. matsum_loop np_add np_mod_mat S rest md = Inr T \<and> nrows T = m \<and> ncols T = n"
    using assms(2) unfolding pre
  proof (induction rest arbitrary: S)
    case Nil
    then show ?case by simp
  next
    case (Cons A rest)
    have "np_add S A = Inr (mk_mat m n (\<lambda>i j. at S i j + at A i j))"
      using Cons.prems np_add_same_shape[of S A] by simp
    moreover have "\<exists>T. matsum_loop np_add np_mod_mat
         (np_mod_mat (mk_mat m n (\<lambda>i j. at S i j + at A i j)) md) rest md = Inr T
         \<and> nrows T = m \<and> ncols T = n"
      using Cons.prems by (intro Cons.IH) simp
    ultimately show ?case by simp
  qed
  then obtain T where T: "matsum_loop np_add np_mod_mat S rest md = Inr T"
    "nrows T = m" "ncols T = n" by blast
  have "np_add T B = Inl ValueError" using assms(3) T(2,3) by (simp add: np_add_misfit)
  then show ?thesis
    using T(1) by (simp add: matsumreduce_def matsumreduce_gen_def pre matsum_loop_append)
qed

section \<open>Coset representatives\<close>

lemma emap_Inr: "(\<And>x. x \<in> set xs \<Longrightarrow> f x = Inr (g x)) \<Longrightarrow> emap f xs = Inr (map g xs)"
  by (induction xs) simp_all

lemma np_add_vec_same_len:
  assumes "length a = length b"
  shows "np_add_vec a b = Inr (map2 (+) a b)"
proof -
  have "map (\<lambda>i. a ! (if length a = 1 then 0 else i) + b ! (if length b = 1 then 0 else i))
          [0..<length b] = map2 (+) a b"
    using assms by (intro nth_equalityI) auto
  then show ?thesis using assms by (simp add: np_add_vec_def)
qed

lemma np_mod_vec_map2: "np_mod_vec (map2 (+) a b) 2 = add_mod2 a b"
  by (simp add: np_mod_vec_def add_mod2_def zip_map_fst_snd map_zip_map map_zip_map2 split_def)

lemma matsumreduce_vec_pair:
  "length a = length b \<Longrightarrow> matsumreduce_vec [a, b] 2 = Inr (add_mod2 a b)"
  by (simp add: matsumreduce_vec_def matsumreduce_gen_def np_add_vec_same_len np_mod_vec_map2)

lemma add_mod2_commute: "add_mod2 a b = add_mod2 b a"
proof -
  have "map2 (\<lambda>x y. (x + y) mod 2) a b = map2 (\<lambda>x y. (x + y) mod 2) b a"
    by (intro nth_equalityI) (auto simp: add.commute)
  then show ?thesis by (simp add: add_mod2_def)
qed

lemma length_add_mod2 [simp]: "length (add_mod2 a b) = min (length a) (length b)"
  by (simp add: add_mod2_def)

lemma bits_add_mod2: "bits (add_mod2 a b)"
  by (auto simp: bits_def add_mod2_def list_all_iff dest!: set_zip_leftD)

lemma np_sum_vec_bits: "bits v \<Longrightarrow> np_sum_vec v = int (hamming v)"
  by (induction v) (auto simp: bits_def np_sum_vec_def hamming_def)

lemma sorted_key_head_least:
  assumes "sort_key f xs = c # cs" "v \<in> set xs"
  shows "f c \<le> f v"
proof -
  have "sorted (map f (c # cs))" using assms(1) sorted_sort_key[of f xs] by simp
  moreover have "v \<in> set (c # cs)" using assms by (metis set_sort)
  ultimately show ?thesis by auto
qed

lemma shortest_filter:
  assumes "sort_key f xs = c # cs"
  shows "set (filter (\<lambda>g. f g = f c) (c # cs)) = {v \<in> set xs. \<forall>w\<in>set xs. f v \<le> f w}"
proof -
  have mem: "set (c # cs) = set xs" using assms by (metis set_sort)
  have c: "c \<in> set xs" using mem by auto
  have least: "\<And>v. v \<in> set xs \<Longrightarrow> f c \<le> f v"
    using assms by (rule sorted_key_head_least)
  have "{v \<in> set xs. f v = f c} = {v \<in> set xs. \<forall>w\<in>set xs. f v \<le> f w}"
    using c least by (auto intro: antisym)
  then show ?thesis using mem by (metis set_filter)
qed

section \<open>The image group\<close>

lemma foldl_const_funpow: "foldl (\<lambda>arr idx. f arr) init xs = (f ^^ length xs) init"
  by (induction xs arbitrary: init) (simp_all add: funpow_swap1)

lemma coeff_Suc: "coeff (Suc k) = (addabit ^^ k) [[0], [1]]"
  by (simp add: coeff_def foldl_const_funpow del: upt_Suc)

lemma length_addabit: "length (addabit arr) = 2 * length arr"
  by (induction arr) (simp_all add: addabit_def)

lemma set_addabit: "set (addabit arr) = (\<lambda>a. a @ [0]) ` set arr \<union> (\<lambda>a. a @ [1]) ` set arr"
  by (auto simp: addabit_def)

lemma distinct_addabit: "distinct arr \<Longrightarrow> distinct (addabit arr)"
  by (induction arr) (auto simp: addabit_def)

lemma bits_append: "bits (a @ b) \<longleftrightarrow> bits a \<and> bits b"
  by (simp add: bits_def)

lemma coeff_Suc_props:
  "length (coeff (Suc k)) = 2 ^ Suc k \<and> distinct (coeff (Suc k)) \<and>
   (\<forall>v\<in>set (coeff (Suc k)). length v = Suc k \<and> bits v) \<and>
   replicate (Suc k) 0 \<in> set (coeff (Suc k))"
proof (induction k)
  case 0
  show ?case by (simp add: coeff_Suc bits_def)
next
  case (Suc k)
  have step: "coeff (Suc (Suc k)) = addabit (coeff (Suc k))" by (simp add: coeff_Suc)
  have "replicate (Suc k) 0 @ [0] \<in> set (addabit (coeff (Suc k)))"
    using Suc by (simp add: set_addabit)
  then have "replicate (Suc (Suc k)) (0::int) \<in> set (addabit (coeff (Suc k)))"
    by (simp add: replicate_append_same)
  moreover have "\<forall>v\<in>set (addabit (coeff (Suc k))). length v = Suc (Suc k) \<and> bits v"
    using Suc by (auto simp: set_addabit bits_append) (simp_all add: bits_def)
  ultimately show ?case using Suc by (simp add: step length_addabit distinct_addabit)
qed

lemma coeff_props:
  assumes "1 \<le> n"
  shows "length (coeff n) = 2 ^ n" "distinct (coeff n)"
    "\<And>v. v \<in> set (coeff n) \<Longrightarrow> length v = n \<and> bits v"
    "replicate n 0 \<in> set (coeff n)"
proof -
  obtain k where n: "n = Suc k" using assms by (cases n) auto
  show "length (coeff n) = 2 ^ n" "distinct (coeff n)" "replicate n 0 \<in> set (coeff n)"
    using coeff_Suc_props[of k] unfolding n by blast+
  show "\<And>v. v \<in> set (coeff n) \<Longrightarrow> length v = n \<and> bits v"
    using coeff_Suc_props[of k] unfolding n by blast
qed

lemma add_mod2_nth:
  "i < length a \<Longrightarrow> i < length b \<Longrightarrow> add_mod2 a b ! i = (a ! i + b ! i) mod 2"
  by (simp add: add_mod2_def)

lemma matsum_loop_vec_same_len:
  assumes "length S = m" "\<forall>A\<in>set As. length A = m"
  shows "matsum_loop np_add_vec np_mod_vec S As 2
         = Inr (if As = [] then S
                else map (\<lambda>i. (S ! i + sum_list (map (\<lambda>A. A ! i) As)) mod 2) [0..<m])"
  using assms
proof (induction As arbitrary: S)
  case Nil
  then show ?case by simp
next
  case (Cons A As)
  have lA: "length A = m" using Cons.prems by simp
  have add: "np_add_vec S A = Inr (map2 (+) S A)"
    using Cons.prems(1) lA by (simp add: np_add_vec_same_len)
  have lS': "length (add_mod2 S A) = m" using Cons.prems(1) lA by simp
  have rest: "\<forall>A\<in>set As. length A = m" using Cons.prems by simp
  note IH = Cons.IH[OF lS' rest]
  show ?case
  proof (cases "As = []")
    case True
    have "add_mod2 S A = map (\<lambda>i. (S ! i + A ! i) mod 2) [0..<m]"
      using Cons.prems(1) lA by (intro nth_equalityI) (simp_all add: add_mod2_nth)
    then show ?thesis using add True by (simp add: np_mod_vec_map2)
  next
    case False
    have "map (\<lambda>i. (add_mod2 S A ! i + sum_list (map (\<lambda>A. A ! i) As)) mod 2) [0..<m]
        = map (\<lambda>i. (S ! i + (A ! i + sum_list (map (\<lambda>A. A ! i) As))) mod 2) [0..<m]"
      using Cons.prems(1) lA by (simp add: add_mod2_nth mod_add_left_eq add.assoc)
    then show ?thesis using add IH False by (simp add: np_mod_vec_map2)
  qed
qed

lemma bits_nth: "bits v \<Longrightarrow> i < length v \<Longrightarrow> v ! i = 0 \<or> v ! i = 1"
  by (simp add: bits_def list_all_length)

lemma matsumreduce_vec_sum:
  assumes "arr \<noteq> []" "\<forall>A\<in>set arr. length A = m \<and> bits A"
  shows "matsumreduce_vec arr 2 = Inr (map (\<lambda>i. sum_list (map (\<lambda>A. A ! i) arr) mod 2) [0..<m])"
proof -
  obtain S rest where arr: "arr = S # rest" using assms(1) by (cases arr) auto
  have S: "length S = m" "bits S" using assms(2) arr by simp_all
  have rest: "\<forall>A\<in>set rest. length A = m" using assms(2) arr by simp
  have "matsum_loop np_add_vec np_mod_vec S rest 2
      = Inr (map (\<lambda>i. sum_list (map (\<lambda>A. A ! i) arr) mod 2) [0..<m])"
  proof (cases "rest = []")
    case True
    have "S = map (\<lambda>i. S ! i mod 2) [0..<m]"
    proof (rule nth_equalityI)
      fix i assume "i < length S"
      then have "S ! i = 0 \<or> S ! i = 1" "i < m" using S bits_nth by auto
      then show "S ! i = map (\<lambda>i. S ! i mod 2) [0..<m] ! i" by auto
    qed (simp add: S)
    then show ?thesis using True arr by simp
  next
    case False
    then show ?thesis using matsum_loop_vec_same_len[OF S(1) rest] arr by simp
  qed
  then show ?thesis using arr by (simp add: matsumreduce_vec_def matsumreduce_gen_def)
qed

lemma scaled_rows_eq:
  assumes "length alpha = length image_basis"
  shows "scaled_rows image_basis alpha
         = Inr (map (\<lambda>j. map (\<lambda>x. alpha ! j * x) (image_basis ! j)) [0..<length image_basis])"
proof -
  let ?g = "\<lambda>(idx, a). map (\<lambda>x. a * x) (image_basis ! idx)"
  have "scaled_rows image_basis alpha = Inr (map ?g (enumerate 0 alpha))"
    unfolding scaled_rows_def using assms
    by (intro emap_Inr) (auto simp: in_set_enumerate_eq)
  moreover have "map ?g (enumerate 0 alpha)
      = map (\<lambda>j. map (\<lambda>x. alpha ! j * x) (image_basis ! j)) [0..<length image_basis]"
    using assms by (intro nth_equalityI) (simp_all add: nth_enumerate_eq)
  ultimately show ?thesis by simp
qed

lemma rows_mtranspose:
  "rows (mtranspose M) = map (\<lambda>j. map (\<lambda>i. at M i j) [0..<nrows M]) [0..<ncols M]"
  by (simp add: mtranspose_def mk_mat_def)

lemma image_sum_eq:
  assumes "wf_mat im2" "binary im2" "1 \<le> ncols im2" "length alpha = ncols im2" "bits alpha"
  shows "ebind (scaled_rows (rows (mtranspose im2)) alpha) (\<lambda>arr. matsumreduce_vec arr 2)
         = Inr (col_comb im2 alpha)"
proof -
  let ?r = "ncols im2" and ?m = "nrows im2"
  let ?arr = "map (\<lambda>j. map (\<lambda>i. alpha ! j * at im2 i j) [0..<?m]) [0..<?r]"
  have sc: "scaled_rows (rows (mtranspose im2)) alpha = Inr ?arr"
    using assms(4) by (simp add: scaled_rows_eq rows_mtranspose)
  have ne: "?arr \<noteq> []" using assms(3) by simp
  have el: "\<forall>A\<in>set ?arr. length A = ?m \<and> bits A"
  proof
    fix A assume "A \<in> set ?arr"
    then obtain j where j: "j < ?r" and A: "A = map (\<lambda>i. alpha ! j * at im2 i j) [0..<?m]"
      by auto
    have aj: "alpha ! j = 0 \<or> alpha ! j = 1" using assms(4,5) j by (simp add: bits_nth)
    have "alpha ! j * at im2 i j = 0 \<or> alpha ! j * at im2 i j = 1" if "i < ?m" for i
    proof -
      have "at im2 i j = 0 \<or> at im2 i j = 1" using binary_at[OF assms(1,2) that j] .
      then show ?thesis using aj by auto
    qed
    then show "length A = ?m \<and> bits A" by (simp add: A bits_def list_all_length)
  qed
  have "matsumreduce_vec ?arr 2
      = Inr (map (\<lambda>i. sum_list (map (\<lambda>A. A ! i) ?arr) mod 2) [0..<?m])"
    using ne el by (rule matsumreduce_vec_sum)
  moreover have "map (\<lambda>i. sum_list (map (\<lambda>A. A ! i) ?arr) mod 2) [0..<?m] = col_comb im2 alpha"
    unfolding col_comb_def
  proof (rule map_cong[OF refl])
    fix i assume "i \<in> set [0..<?m]"
    then have i: "i < ?m" by simp
    have eq: "map (\<lambda>A. A ! i) ?arr = map (\<lambda>j. alpha ! j * at im2 i j) [0..<?r]"
      using i by simp
    show "sum_list (map (\<lambda>A. A ! i) ?arr) mod 2
        = sum_list (map (\<lambda>j. alpha ! j * at im2 i j) [0..<?r]) mod 2"
      by (simp only: eq)
  qed
  ultimately show ?thesis using sc by simp
qed

lemma bits_iff_n_lists: "alpha \<in> set (List.n_lists n [0, 1]) \<longleftrightarrow> length alpha = n \<and> bits alpha"
  by (auto simp: set_n_lists bits_def list_all_iff)

lemma sum_list_mod2_cong:
  "(\<And>x. x \<in> set xs \<Longrightarrow> f x mod 2 = g x mod (2::int))
     \<Longrightarrow> sum_list (map f xs) mod 2 = sum_list (map g xs) mod 2"
proof (induction xs)
  case Nil
  show ?case by simp
next
  case (Cons x xs)
  have 1: "f x mod 2 = g x mod 2" using Cons.prems by simp
  have 2: "sum_list (map f xs) mod 2 = sum_list (map g xs) mod 2"
    using Cons by simp
  show ?case unfolding list.map sum_list.Cons using 1 2 by (rule mod_add_cong)
qed

lemma col_comb_nth:
  "i < nrows M \<Longrightarrow> col_comb M alpha ! i
     = sum_list (map (\<lambda>j. alpha ! j * at M i j) [0..<ncols M]) mod 2"
  by (simp add: col_comb_def)

lemma length_col_comb [simp]: "length (col_comb M alpha) = nrows M"
  by (simp add: col_comb_def)

lemma col_comb_add:
  assumes "length alpha = ncols M" "length beta = ncols M" "i < nrows M"
  shows "col_comb M (add_mod2 alpha beta) ! i = (col_comb M alpha ! i + col_comb M beta ! i) mod 2"
proof -
  let ?js = "[0..<ncols M]"
  have "sum_list (map (\<lambda>j. add_mod2 alpha beta ! j * at M i j) ?js) mod 2
      = sum_list (map (\<lambda>j. (alpha ! j + beta ! j) * at M i j) ?js) mod 2"
    using assms by (intro sum_list_mod2_cong) (simp add: add_mod2_nth mod_mult_left_eq)
  also have "sum_list (map (\<lambda>j. (alpha ! j + beta ! j) * at M i j) ?js)
      = sum_list (map (\<lambda>j. alpha ! j * at M i j) ?js) + sum_list (map (\<lambda>j. beta ! j * at M i j) ?js)"
    by (simp add: distrib_right sum_list_addf)
  finally show ?thesis using assms(3) by (simp add: col_comb_nth mod_add_eq)
qed

lemma col_comb_inj:
  assumes ind: "indep_cols M"
    and a: "length alpha = ncols M" "bits alpha"
    and b: "length beta = ncols M" "bits beta"
    and eq: "col_comb M alpha = col_comb M beta"
  shows "alpha = beta"
proof -
  let ?g = "add_mod2 alpha beta"
  have g: "?g \<in> set (List.n_lists (ncols M) [0, 1])"
    using a b by (simp add: bits_iff_n_lists bits_add_mod2)
  have "col_comb M ?g = replicate (nrows M) 0"
  proof (rule nth_equalityI)
    fix i assume "i < length (col_comb M ?g)"
    then have i: "i < nrows M" by simp
    have "col_comb M ?g ! i = (col_comb M beta ! i + col_comb M beta ! i) mod 2"
      using col_comb_add[OF a(1) b(1) i] eq by simp
    then show "col_comb M ?g ! i = replicate (nrows M) 0 ! i" using i by simp
  qed simp
  then have z: "?g = replicate (ncols M) 0"
    using ind g unfolding indep_cols_def by blast
  show ?thesis
  proof (rule nth_equalityI)
    fix j assume j: "j < length alpha"
    then have "?g ! j = 0" using z a(1) by simp
    then have "(alpha ! j + beta ! j) mod 2 = 0" using j a(1) b(1) by (simp add: add_mod2_nth)
    moreover have "alpha ! j = 0 \<or> alpha ! j = 1" "beta ! j = 0 \<or> beta ! j = 1"
      using j a b by (simp_all add: bits_nth)
    ultimately show "alpha ! j = beta ! j" by auto
  qed (simp add: a b)
qed

lemma sum_list_zero_member:
  "\<forall>y\<in>set xs. (0::int) \<le> y \<Longrightarrow> sum_list xs = 0 \<Longrightarrow> x \<in> set xs \<Longrightarrow> x = 0"
proof (induction xs)
  case Nil
  then show ?case by simp
next
  case (Cons a xs)
  have "0 \<le> a" "0 \<le> sum_list xs" using Cons.prems(1) by (simp_all add: sum_list_nonneg)
  then have "a = 0" "sum_list xs = 0" using Cons.prems(2) by simp_all
  then show ?case using Cons by auto
qed

lemma np_sum_zero:
  assumes "wf_mat M" "binary M" "np_sum M = 0" "i < nrows M" "j < ncols M"
  shows "at M i j = 0"
proof -
  have nonneg: "0 \<le> x" if "r \<in> set (rows M)" "x \<in> set r" for r x
  proof -
    have "x = 0 \<or> x = 1" using assms(2) that by (simp add: binary_def list_all_iff)
    then show ?thesis by auto
  qed
  have ri: "rows M ! i \<in> set (rows M)"
    using assms(1,4) by (simp add: wf_mat_def)
  have "\<forall>s\<in>set (map sum_list (rows M)). 0 \<le> s"
    using nonneg by (auto intro: sum_list_nonneg)
  moreover have "sum_list (map sum_list (rows M)) = 0" using assms(3) by (simp add: np_sum_def)
  moreover have "sum_list (rows M ! i) \<in> set (map sum_list (rows M))" using ri by simp
  ultimately have "sum_list (rows M ! i) = 0" by (rule sum_list_zero_member)
  moreover have "\<forall>x\<in>set (rows M ! i). 0 \<le> x" using nonneg[OF ri] by blast
  moreover have "rows M ! i ! j \<in> set (rows M ! i)"
    using wf_rows_nth[OF assms(1,4)] assms(5) by simp
  ultimately have "rows M ! i ! j = 0" by (metis sum_list_zero_member)
  then show ?thesis by (simp add: at_def)
qed

lemma indep_np_sum:
  assumes "wf_mat M" "binary M" "1 \<le> ncols M" "indep_cols M"
  shows "np_sum M \<noteq> 0"
proof
  assume z: "np_sum M = 0"
  let ?a = "replicate (ncols M) (1::int)"
  have "?a \<in> set (List.n_lists (ncols M) [0, 1])"
    by (simp add: bits_iff_n_lists bits_def list_all_iff)
  moreover have "col_comb M ?a = replicate (nrows M) 0"
  proof (rule nth_equalityI)
    fix i assume "i < length (col_comb M ?a)"
    then have i: "i < nrows M" by simp
    have "map (\<lambda>j. ?a ! j * at M i j) [0..<ncols M] = map (\<lambda>j. 0) [0..<ncols M]"
      using np_sum_zero[OF assms(1,2) z i] by simp
    then have "sum_list (map (\<lambda>j. ?a ! j * at M i j) [0..<ncols M]) = 0"
      by (simp only: sum_list_0)
    then show "col_comb M ?a ! i = replicate (nrows M) 0 ! i"
      using i by (simp add: col_comb_nth)
  qed simp
  ultimately have "?a = replicate (ncols M) 0"
    using assms(4) unfolding indep_cols_def by blast
  then have "?a ! 0 = replicate (ncols M) (0::int) ! 0" by simp
  then show False using assms(3) by simp
qed

lemma col_comb_zero_coeff: "col_comb M (replicate (ncols M) 0) = replicate (nrows M) 0"
proof (rule nth_equalityI)
  fix i assume "i < length (col_comb M (replicate (ncols M) 0))"
  then have i: "i < nrows M" by simp
  have "map (\<lambda>j. replicate (ncols M) (0::int) ! j * at M i j) [0..<ncols M]
      = map (\<lambda>j. 0) [0..<ncols M]" by simp
  then have "sum_list (map (\<lambda>j. replicate (ncols M) (0::int) ! j * at M i j) [0..<ncols M]) = 0"
    by (simp only: sum_list_0)
  then show "col_comb M (replicate (ncols M) 0) ! i = replicate (nrows M) 0 ! i"
    using i by (simp add: col_comb_nth)
qed simp

section \<open>Adding a row twice\<close>

text \<open>
  Claim C10, as amended: for a 0/1 matrix and two \<^emph>\<open>different\<close> rows \<open>i\<close> and \<open>j\<close>, applying
  \<^verbatim>\<open>add_to_row(M,i,j)\<close> (default multipliers, mod 2) twice gives the matrix back.
\<close>

theorem add_to_row_twice:
  assumes "wf_mat M" "binary M" "i < nrows M" "j < nrows M" "i \<noteq> j"
  shows "ebind (add_to_row M i j 1 1 2) (\<lambda>N. add_to_row N i j 1 1 2) = Inr M"
proof -
  let ?N = "mk_mat (nrows M) (ncols M)
              (\<lambda>a b. if a = i then (at M i b + at M j b) mod 2 else at M a b)"
  have 1: "add_to_row M i j 1 1 2 = Inr ?N"
    using assms by (simp add: add_to_row_eq)
  have 2: "add_to_row ?N i j 1 1 2 = Inr (mk_mat (nrows M) (ncols M)
              (\<lambda>a b. if a = i then (at ?N i b + at ?N j b) mod 2 else at ?N a b))"
    using assms by (simp add: add_to_row_eq)
  have bin: "\<And>a b. a < nrows M \<Longrightarrow> b < ncols M \<Longrightarrow> at M a b = 0 \<or> at M a b = 1"
    using assms(1,2) by (simp add: binary_iff)
  have "mk_mat (nrows M) (ncols M)
              (\<lambda>a b. if a = i then (at ?N i b + at ?N j b) mod 2 else at ?N a b) = M"
  proof (rule mat_eqI)
    fix a b assume ab: "a < nrows (mk_mat (nrows M) (ncols M)
              (\<lambda>a b. if a = i then (at ?N i b + at ?N j b) mod 2 else at ?N a b))"
       "b < ncols (mk_mat (nrows M) (ncols M)
              (\<lambda>a b. if a = i then (at ?N i b + at ?N j b) mod 2 else at ?N a b))"
    then have a: "a < nrows M" and b: "b < ncols M" by simp_all
    have "at M i b = 0 \<or> at M i b = 1" using bin assms(3) b by blast
    then have "((at M i b + at M j b) mod 2 + at M j b) mod 2 = at M i b"
      by (auto simp: mod_add_left_eq)
    then show "at (mk_mat (nrows M) (ncols M)
              (\<lambda>a b. if a = i then (at ?N i b + at ?N j b) mod 2 else at ?N a b)) a b = at M a b"
      using a b assms(3,4,5) by simp
  qed (use assms in simp_all)
  then show ?thesis using 1 2 by simp
qed

theorem add_to_row_twice_witness:
  "ebind (add_to_row \<lparr>nrows = 2, ncols = 2, rows = [[1, 0], [1, 1]]\<rparr> 0 1 1 1 2)
     (\<lambda>N. add_to_row N 0 1 1 1 2) = Inr \<lparr>nrows = 2, ncols = 2, rows = [[1, 0], [1, 1]]\<rparr>"
  using add_to_row_twice [of "\<lparr>nrows = 2, ncols = 2, rows = [[1, 0], [1, 1]]\<rparr>" 0 1]
  by (simp add: wf_mat_def binary_def)

text \<open>
  For \<open>i = j\<close> the claim fails: the row is added to itself, which makes it zero, and the
  second application leaves it zero.
\<close>

theorem add_to_row_twice_same_row:
  "wf_mat same_row_input \<and> binary same_row_input \<and> 0 < nrows same_row_input \<and>
   ebind (add_to_row same_row_input 0 0 1 1 2) (\<lambda>N. add_to_row N 0 0 1 1 2)
     = Inr \<lparr>nrows = 1, ncols = 1, rows = [[0]]\<rparr> \<and>
   ebind (add_to_row same_row_input 0 0 1 1 2) (\<lambda>N. add_to_row N 0 0 1 1 2)
     \<noteq> Inr same_row_input"
  by (simp add: same_row_input_def wf_mat_def binary_def add_to_row_def np_mod_vec_def)

section \<open>The pivot search\<close>

text \<open>
  Claim C4 says that \<^verbatim>\<open>_get_next_pivot(M,rowStart,colStart)\<close> scans from column
  \<open>colStart\<close> also when \<open>colStart = 0\<close> and \<open>colStart \<noteq> rowStart\<close>. The test
  \<^verbatim>\<open>if not s2\<close> takes the column 0 for a missing argument and starts at column \<open>rowStart\<close>:
  with \<open>rowStart = 1\<close> and \<open>colStart = 0\<close> the nonzero entry at position \<open>(1,0)\<close> is not found.
\<close>

theorem get_next_pivot_column_zero:
  "wf_mat pivot_input \<and> at pivot_input 1 0 \<noteq> 0 \<and>
   get_next_pivot pivot_input 1 (Some 0) = None"
  by (simp add: pivot_input_def wf_mat_def at_def get_next_pivot_def upt_rec)

section \<open>An unsuitable dimension\<close>

text \<open>
  Claim C6, as amended: for a hypergraph with at least one edge and an integer \<open>k\<close> with
  \<open>k < 1\<close> or \<open>k + 1\<close> greater than the largest edge size,
  \<^verbatim>\<open>hypergraph_homology_basis(h,k,shortest)\<close> returns the string \<^verbatim>\<open>'wrong dim'\<close>; no error is
  raised.
\<close>

theorem wrong_dim_is_returned:
  assumes "h \<noteq> []" "k < 1 \<or> k + 1 > int (Max (set (map edge_len h)))"
  shows "hypergraph_homology_basis h k shortest = Inr (Text ''wrong dim'')"
  using assms by (auto simp: hypergraph_homology_basis_def Let_def)

theorem wrong_dim_is_returned_witness:
  "hypergraph_homology_basis [[1, 2], [2, 3], [1, 3]] 2 True = Inr (Text ''wrong dim'')"
  using wrong_dim_is_returned [of "[[1, 2], [2, 3], [1, 3]]" 2 True]
  by (simp add: edge_len_def)

text \<open>
  The claim as stated asks for a typed error instead of a returned value; on the
  one-edge hypergraph \<open>{1,2}\<close> and \<open>k = 0\<close> the function returns the string and raises nothing.
\<close>

theorem wrong_dim_no_error:
  "hypergraph_homology_basis [[1, 2]] 0 False = Inr (Text ''wrong dim'') \<and>
   (\<forall>e. hypergraph_homology_basis [[1, 2]] 0 False \<noteq> Inl e)"
  by (simp add: hypergraph_homology_basis_def edge_len_def)

section \<open>Shapes in a sum of matrices\<close>

text \<open>
  Claim C9, as amended: on a non-empty list of 0/1 matrices of one shape \<^verbatim>\<open>matsumreduce\<close>
  returns the elementwise sum mod 2; and when such a list is followed by a matrix whose
  shape does not fit that shape (a dimension differs and neither of the two sizes is 1),
  numpy's \<^verbatim>\<open>ValueError\<close> for mismatched shapes is raised, whatever follows.
\<close>

theorem matsumreduce_shapes:
  assumes "pre \<noteq> []"
    and "\<forall>A\<in>set pre. wf_mat A \<and> binary A \<and> nrows A = m \<and> ncols A = n"
  shows "matsumreduce pre 2 = Inr (mk_mat m n (\<lambda>i j. sum_list (map (\<lambda>A. at A i j) pre) mod 2))
       \<and> (bdim m (nrows B) = None \<or> bdim n (ncols B) = None
            \<longrightarrow> matsumreduce (pre @ B # post) 2 = Inl ValueError)"
  using assms matsumreduce_same_shape[of pre m n] matsumreduce_misfit[of pre m n B post 2]
  by simp

theorem matsumreduce_shapes_witness:
  "matsumreduce [sum_a1, sum_a2] 2 = Inr \<lparr>nrows = 2, ncols = 2, rows = [[0, 1], [0, 0]]\<rparr>
   \<and> matsumreduce [sum_a1, sum_a2, sum_b] 2 = Inl ValueError"
  using matsumreduce_shapes [of "[sum_a1, sum_a2]" 2 2 sum_b "[]"]
  by (simp add: sum_a1_def sum_a2_def sum_b_def wf_mat_def binary_def bdim_def mk_mat_def at_def upt_rec)

text \<open>
  The claim as stated fails where numpy broadcasts: a \<open>1 \<times> 2\<close> matrix and a \<open>2 \<times> 2\<close> matrix
  have different shapes, and their sum is returned.
\<close>

theorem matsumreduce_broadcasts:
  "(nrows sum_row, ncols sum_row) \<noteq> (nrows sum_a1, ncols sum_a1) \<and>
   matsumreduce [sum_row, sum_a1] 2 = Inr \<lparr>nrows = 2, ncols = 2, rows = [[0, 1], [1, 0]]\<rparr>"
  by (simp add: sum_a1_def sum_row_def matsumreduce_def matsumreduce_gen_def np_add_def bdim_def
      mk_mat_def at_def np_mod_mat_def np_mod_vec_def upt_rec)

text \<open>
  Claim C7: for a 0/1 vector \<open>bs\<close> and a non-empty list \<open>G\<close> of 0/1 vectors of the same
  length, \<^verbatim>\<open>_coset_reps(bs,G,shortest=True)\<close> returns a non-empty list whose elements are
  exactly the members of the coset \<open>{bs + g mod 2 | g \<in> G}\<close> of least Hamming weight.
\<close>

theorem coset_reps_shortest:
  assumes "G \<noteq> []" "bits bs" "\<forall>g\<in>set G. bits g \<and> length g = length bs"
  shows "\<exists>reps. coset_reps bs G True = Inr reps \<and> reps \<noteq> [] \<and>
           set reps = {v \<in> (\<lambda>g. add_mod2 bs g) ` set G.
                         \<forall>w \<in> (\<lambda>g. add_mod2 bs g) ` set G. hamming v \<le> hamming w}"
proof -
  let ?coset0 = "map (\<lambda>g. add_mod2 bs g) G"
  have em: "emap (\<lambda>img. matsumreduce_vec [img, bs] 2) G = Inr ?coset0"
    using assms(3) by (intro emap_Inr) (simp add: matsumreduce_vec_pair add_mod2_commute)
  have ne: "sort_key np_sum_vec ?coset0 \<noteq> []"
    using assms(1) by (metis length_sort length_map length_0_conv)
  then obtain c cs where srt: "sort_key np_sum_vec ?coset0 = c # cs"
    by (cases "sort_key np_sum_vec ?coset0") auto
  let ?reps = "filter (\<lambda>g. np_sum_vec g = np_sum_vec c) (c # cs)"
  have run: "coset_reps bs G True = Inr ?reps"
    using em srt by (simp add: coset_reps_def Let_def)
  have "?reps \<noteq> []" by simp
  moreover have "set ?reps = {v \<in> set ?coset0. \<forall>w\<in>set ?coset0. np_sum_vec v \<le> np_sum_vec w}"
    using srt by (rule shortest_filter)
  moreover have "{v \<in> set ?coset0. \<forall>w\<in>set ?coset0. np_sum_vec v \<le> np_sum_vec w}
      = {v \<in> set ?coset0. \<forall>w\<in>set ?coset0. hamming v \<le> hamming w}"
    by (auto simp: np_sum_vec_bits bits_add_mod2)
  ultimately show ?thesis using run by (simp only: set_map) blast
qed

theorem coset_reps_shortest_witness:
  "coset_reps [1, 1, 1] coset_g True = Inr [[0, 0, 1], [1, 0, 0], [0, 1, 0]] \<and>
   (\<exists>reps. coset_reps [1, 1, 1] coset_g True = Inr reps \<and> reps \<noteq> [] \<and>
           set reps = {v \<in> (\<lambda>g. add_mod2 [1, 1, 1] g) ` set coset_g.
                         \<forall>w \<in> (\<lambda>g. add_mod2 [1, 1, 1] g) ` set coset_g. hamming v \<le> hamming w})"
proof -
  have h: "coset_g \<noteq> [] \<and> bits [1, 1, 1] \<and> (\<forall>g\<in>set coset_g. bits g \<and> length g = length [1, 1, 1::int])"
    by (simp add: coset_g_def bits_def)
  have v: "coset_reps [1, 1, 1] coset_g True = Inr [[0, 0, 1], [1, 0, 0], [0, 1, 0]]"
    by (simp add: coset_g_def coset_reps_def matsumreduce_vec_def matsumreduce_gen_def
        np_add_vec_def bdim_def np_mod_vec_def np_sum_vec_def upt_rec)
  show ?thesis using coset_reps_shortest [of coset_g "[1, 1, 1]"] h v by blast
qed

text \<open>
  Claim C8, as amended: for a 0/1 matrix with \<open>r \<ge> 1\<close> columns that are linearly independent
  over the field with two elements, \<^verbatim>\<open>image_group\<close> yields a list of exactly \<open>2 ^ r\<close>
  distinct vectors, the zero vector among them.
\<close>

theorem image_group_size:
  assumes "wf_mat im2" "binary im2" "1 \<le> ncols im2" "indep_cols im2"
  shows "\<exists>grp. image_group im2 = Inr (Some grp) \<and> length grp = 2 ^ ncols im2 \<and>
           distinct grp \<and> replicate (nrows im2) 0 \<in> set grp"
proof -
  let ?r = "ncols im2"
  let ?basis = "rows (mtranspose im2)"
  have lb: "length ?basis = ?r" by (simp add: rows_mtranspose)
  have cf: "\<And>v. v \<in> set (coeff ?r) \<Longrightarrow> length v = ?r \<and> bits v"
    using coeff_props(3)[OF assms(3)] .
  have em: "emap (\<lambda>alpha. ebind (scaled_rows ?basis alpha) (\<lambda>arr. matsumreduce_vec arr 2))
              (coeff ?r) = Inr (map (col_comb im2) (coeff ?r))"
    using cf by (intro emap_Inr) (simp add: image_sum_eq[OF assms(1,2,3)])
  let ?grp = "sort_key np_sum_vec (map (col_comb im2) (coeff ?r))"
  have run: "image_group im2 = Inr (Some ?grp)"
    using indep_np_sum[OF assms] em lb by (simp add: image_group_def Let_def)
  have inj: "inj_on (col_comb im2) (set (coeff ?r))"
  proof (rule inj_onI)
    fix a b assume "a \<in> set (coeff ?r)" "b \<in> set (coeff ?r)" "col_comb im2 a = col_comb im2 b"
    then show "a = b" using cf col_comb_inj[OF assms(4)] by blast
  qed
  have "length ?grp = 2 ^ ?r" using coeff_props(1)[OF assms(3)] by simp
  moreover have "distinct ?grp"
    using inj coeff_props(2)[OF assms(3)] by (simp add: distinct_map)
  moreover have "replicate (nrows im2) 0 \<in> set ?grp"
  proof -
    have "col_comb im2 (replicate ?r 0) \<in> col_comb im2 ` set (coeff ?r)"
      using coeff_props(4)[OF assms(3)] by (rule imageI)
    then show ?thesis by (simp add: col_comb_zero_coeff)
  qed
  ultimately show ?thesis using run by blast
qed

theorem image_group_size_witness:
  "image_group two_cols = Inr (Some [[0, 0], [0, 1], [1, 0], [1, 1]]) \<and>
   (\<exists>grp. image_group two_cols = Inr (Some grp) \<and> length grp = 2 ^ ncols two_cols \<and>
           distinct grp \<and> replicate (nrows two_cols) 0 \<in> set grp)"
proof -
  have h: "wf_mat two_cols \<and> binary two_cols \<and> 1 \<le> ncols two_cols"
    by (simp add: two_cols_def wf_mat_def binary_def)
  have i: "indep_cols two_cols"
    by (simp add: indep_cols_def two_cols_def col_comb_def at_def List.n_lists.simps upt_rec
        numeral_2_eq_2)
  have v: "image_group two_cols = Inr (Some [[0, 0], [0, 1], [1, 0], [1, 1]])"
    by code_simp
  show ?thesis using image_group_size [of two_cols] h i v by blast
qed

text \<open>
  For \<open>r = 0\<close> the claim fails: the entries of a matrix without columns sum to 0, and
  \<^verbatim>\<open>image_group\<close> returns \<^verbatim>\<open>None\<close> instead of the one-element list with the zero vector.
\<close>

theorem image_group_no_columns:
  "wf_mat no_cols \<and> binary no_cols \<and> indep_cols no_cols \<and> ncols no_cols = 0 \<and>
   image_group no_cols = Inr None"
  by (simp add: no_cols_def wf_mat_def binary_def indep_cols_def col_comb_def image_group_def
      np_sum_def)

end
